theory Spec2Isabelle
  imports Main
begin

section \<open>The Hls orchestrator of src/hls.ts\<close>

text \<open>
  The class \<open>Hls\<close> is embedded as a record of its fields, and each method, getter and
  setter as a function on that record. JavaScript numbers that hold level indices and
  bitrates are integers (\<open>int\<close>); a nullable reference is an \<open>option\<close>.

  The collaborators of \<open>Hls\<close> (the controllers, the event emitter, the logger) are
  other modules. What \<open>Hls\<close> does to them is kept in the state:
  \<^item> a property of a controller that \<open>Hls\<close> reads or assigns is a field of that
    controller's record;
  \<^item> a method that \<open>Hls\<close> calls on a controller, and every event it publishes, is
    appended to \<open>calls\<close>, in the order of the calls;
  \<^item> a line written with \<open>logger.log\<close> is appended to \<open>logged\<close>.
  A listener or a controller is opaque: what its own code does when it is called is
  outside this theory.
\<close>

subsection \<open>Data\<close>

text \<open>An \<open>HTMLMediaElement\<close>, by the identity of the object.\<close>

type_synonym media = nat

text \<open>\<open>Level\<close> (types/level): only \<open>maxBitrate\<close> is read by \<open>Hls\<close>.\<close>

record level =
  maxBitrate :: int

text \<open>
  \<open>Events\<close> (events.ts): the four events \<open>Hls\<close> publishes itself, and every other
  member of the enumeration by its name.
\<close>

datatype events =
  MEDIA_ATTACHING
  | MEDIA_DETACHING
  | MANIFEST_LOADING
  | DESTROYING
  | OTHER_EVENT string

text \<open>The argument of a published event: nothing, \<open>{ media }\<close> or \<open>{ url }\<close>.\<close>

datatype payload =
  NoPayload
  | MediaPayload media
  | UrlPayload string

text \<open>
  A registered listener: the identity of its function, and whether it was registered
  with \<open>once\<close>.
\<close>

datatype listener = Listener (listener_fn: nat) (listener_once: bool)

text \<open>
  The components the constructor creates, one per \<open>new\<close>; each value stands for that
  instance.
\<close>

datatype component =
  PlaylistLoader
  | KeyLoader
  | AbrController
  | BufferController
  | CapLevelController
  | FpsController
  | FragmentTracker
  | LevelController
  | StreamController
  | AudioTrackController
  | AudioStreamController
  | SubtitleTrackController
  | SubtitleStreamController
  | TimelineController
  | EMEController

text \<open>
  What \<open>Hls\<close> does to its collaborators: an event published through the emitter, with
  the listeners that received it in the order they were called; \<open>destroy()\<close> on a
  component; the methods of the stream controller and of the cap-level controller.
\<close>

datatype call =
  Publish events payload "listener list"
  | ComponentDestroy component
  | ImmediateLevelSwitch
  | NextLevelSwitch
  | StartCapping
  | StopCapping

text \<open>A line of the logger: a fixed text, or a text followed by a number.\<close>

datatype log_entry =
  Log string
  | LogNum string int

text \<open>
  The options of \<open>HlsConfig\<close> that the modelled operations read or write. For the
  optional controllers, the option holds a class or nothing; only whether it is set
  matters here (\<open>True\<close> when a class is configured).
\<close>

record hls_config =
  capLevelToPlayerSize :: bool
  minAutoBitrate :: int
  audioTrackController :: bool
  audioStreamController :: bool
  subtitleTrackController :: bool
  subtitleStreamController :: bool
  timelineController :: bool
  emeController :: bool

text \<open>
  The properties of \<open>LevelController\<close> and \<open>AbrController\<close> that \<open>Hls\<close> reads and
  assigns, as plain fields: \<open>levels\<close> may be undefined (\<open>None\<close>);
  \<open>abr_nextAutoLevel\<close> is the estimator's suggestion.
\<close>

record level_controller =
  lc_levels :: "level list option"
  lc_manualLevel :: int
  lc_firstLevel :: int
  lc_startLevel :: int

record abr_controller =
  abr_nextAutoLevel :: int

text \<open>
  The fields of \<open>Hls\<close>. \<open>priv_emitter\<close> is the registry of \<open>_emitter\<close>: the listeners
  with their events, in registration order. \<open>priv_autoLevelCapping\<close> and \<open>priv_media\<close>
  are \<open>_autoLevelCapping\<close> and \<open>_media\<close>.
\<close>

record hls =
  config :: hls_config
  coreComponents :: "component list"
  networkControllers :: "component list"
  priv_emitter :: "(events \<times> listener) list"
  priv_autoLevelCapping :: int
  abrController :: abr_controller
  levelController :: level_controller
  priv_media :: "media option"
  url :: "string option"
  calls :: "call list"
  logged :: "log_entry list"

subsection \<open>Logger and event emitter\<close>

definition logger_log :: "log_entry \<Rightarrow> hls \<Rightarrow> hls" where
  "logger_log m h = h\<lparr>logged := logged h @ [m]\<rparr>"

text \<open>
  Modelled from the spec: the event channel (the package eventemitter3 is not under
  src/). Dispatch is synchronous, to every listener registered for the event, in
  registration order; \<open>emit\<close> returns whether a listener existed; a listener
  registered with \<open>once\<close> is removed when its event is published.
\<close>

definition receivers :: "events \<Rightarrow> (events \<times> listener) list \<Rightarrow> listener list" where
  "receivers e reg = map snd (filter (\<lambda>r. fst r = e) reg)"

definition on :: "events \<Rightarrow> nat \<Rightarrow> hls \<Rightarrow> hls" where
  "on e f h = h\<lparr>priv_emitter := priv_emitter h @ [(e, Listener f False)]\<rparr>"

definition once :: "events \<Rightarrow> nat \<Rightarrow> hls \<Rightarrow> hls" where
  "once e f h = h\<lparr>priv_emitter := priv_emitter h @ [(e, Listener f True)]\<rparr>"

definition removeAllListeners :: "events option \<Rightarrow> hls \<Rightarrow> hls" where
  "removeAllListeners ev h =
     (case ev of
        None \<Rightarrow> h\<lparr>priv_emitter := []\<rparr>
      | Some e \<Rightarrow> h\<lparr>priv_emitter := filter (\<lambda>r. fst r \<noteq> e) (priv_emitter h)\<rparr>)"

definition listeners :: "events \<Rightarrow> hls \<Rightarrow> nat list" where
  "listeners e h = map listener_fn (receivers e (priv_emitter h))"

definition listenerCount :: "events \<Rightarrow> hls \<Rightarrow> nat" where
  "listenerCount e h = length (receivers e (priv_emitter h))"

definition emit :: "events \<Rightarrow> payload \<Rightarrow> hls \<Rightarrow> bool \<times> hls" where
  "emit e p h =
     (let ls = receivers e (priv_emitter h)
      in (ls \<noteq> [],
          h\<lparr>priv_emitter :=
               filter (\<lambda>r. if fst r = e then \<not> listener_once (snd r) else True) (priv_emitter h),
            calls := calls h @ [Publish e p ls]\<rparr>))"

subsection \<open>Calls on the controllers\<close>

definition component_destroy :: "component \<Rightarrow> hls \<Rightarrow> hls" where
  "component_destroy c h = h\<lparr>calls := calls h @ [ComponentDestroy c]\<rparr>"

definition immediateLevelSwitch :: "hls \<Rightarrow> hls" where
  "immediateLevelSwitch h = h\<lparr>calls := calls h @ [ImmediateLevelSwitch]\<rparr>"

definition nextLevelSwitch :: "hls \<Rightarrow> hls" where
  "nextLevelSwitch h = h\<lparr>calls := calls h @ [NextLevelSwitch]\<rparr>"

definition startCapping :: "hls \<Rightarrow> hls" where
  "startCapping h = h\<lparr>calls := calls h @ [StartCapping]\<rparr>"

definition stopCapping :: "hls \<Rightarrow> hls" where
  "stopCapping h = h\<lparr>calls := calls h @ [StopCapping]\<rparr>"

subsection \<open>The component lists of the constructor\<close>

text \<open>
  \<open>createController\<close> instantiates the class if one is configured, and pushes the
  instance on the given list. The argument \<open>controllerInstance\<close> names the instance
  that \<open>new ControllerClass\<close> would create.
\<close>

definition createController ::
  "bool \<Rightarrow> component \<Rightarrow> component list \<Rightarrow> component option \<times> component list" where
  "createController ControllerClass controllerInstance components =
     (if ControllerClass
      then (Some controllerInstance, components @ [controllerInstance])
      else (None, components))"

text \<open>
  The lists \<open>coreComponents\<close> and \<open>networkControllers\<close> as the constructor leaves them
  (first and second component of the result).
\<close>

definition constructor_components :: "hls_config \<Rightarrow> component list \<times> component list" where
  "constructor_components cfg =
     (let networkControllers0 = [LevelController, StreamController];
          coreComponents0 =
            [PlaylistLoader, KeyLoader, AbrController, BufferController, CapLevelController,
             FpsController, FragmentTracker];
          n1 = snd (createController (audioTrackController cfg) AudioTrackController
                 networkControllers0);
          n2 = snd (createController (audioStreamController cfg) AudioStreamController n1);
          n3 = snd (createController (subtitleTrackController cfg) SubtitleTrackController n2);
          n4 = snd (createController (subtitleStreamController cfg) SubtitleStreamController n3);
          c1 = snd (createController (timelineController cfg) TimelineController coreComponents0);
          c2 = snd (createController (emeController cfg) EMEController c1)
      in (c2, n4))"

subsection \<open>Attaching and detaching media, destroy\<close>

definition attachMedia :: "media \<Rightarrow> hls \<Rightarrow> hls" where
  "attachMedia m h =
     (let h1 = logger_log (Log ''attachMedia'') h;
          h2 = h1\<lparr>priv_media := Some m\<rparr>
      in snd (emit MEDIA_ATTACHING (MediaPayload m) h2))"

definition detachMedia :: "hls \<Rightarrow> hls" where
  "detachMedia h =
     (let h1 = logger_log (Log ''detachMedia'') h;
          h2 = snd (emit MEDIA_DETACHING NoPayload h1)
      in h2\<lparr>priv_media := None\<rparr>)"

definition media :: "hls \<Rightarrow> media option" where
  "media h = priv_media h"

text \<open>
  \<open>forEach\<close> over \<open>coreComponents.concat(networkControllers)\<close> is a fold over the
  concatenated list, in list order.
\<close>

definition destroy :: "hls \<Rightarrow> hls" where
  "destroy h =
     (let h1 = logger_log (Log ''destroy'') h;
          h2 = snd (emit DESTROYING NoPayload h1);
          h3 = detachMedia h2;
          h4 = fold component_destroy (coreComponents h3 @ networkControllers h3) h3;
          h5 = h4\<lparr>url := None\<rparr>;
          h6 = removeAllListeners None h5
      in h6\<lparr>priv_autoLevelCapping := - 1\<rparr>)"

definition recoverMediaError :: "hls \<Rightarrow> hls" where
  "recoverMediaError h =
     (let h1 = logger_log (Log ''recoverMediaError'') h;
          m = priv_media h1;
          h2 = detachMedia h1
      in (case m of None \<Rightarrow> h2 | Some r \<Rightarrow> attachMedia r h2))"

subsection \<open>Levels and the automatic level bounds\<close>

definition levels :: "hls \<Rightarrow> level list" where
  "levels h = (case lc_levels (levelController h) of None \<Rightarrow> [] | Some ls \<Rightarrow> ls)"

text \<open>
  The loop of the \<open>minAutoLevel\<close> getter, from index \<open>i\<close>: the first index from \<open>i\<close>
  on whose level's \<open>maxBitrate\<close> is greater than \<open>minAutoBitrate\<close>, and \<open>0\<close> when the
  loop runs to the end.
\<close>

function minAutoLevel_loop :: "level list \<Rightarrow> int \<Rightarrow> nat \<Rightarrow> int" where
  "minAutoLevel_loop ls b i =
     (if i < length ls
      then (if maxBitrate (ls ! i) > b then int i else minAutoLevel_loop ls b (Suc i))
      else 0)"
  by pat_completeness auto
termination
  by (relation "measure (\<lambda>(ls, b, i). length ls - i)") auto

declare minAutoLevel_loop.simps [simp del]

text \<open>
  The getter \<open>levels\<close> always yields an array, so the guard \<open>if (!levels) return 0\<close>
  of the source is never taken.
\<close>

definition minAutoLevel :: "hls \<Rightarrow> int" where
  "minAutoLevel h = minAutoLevel_loop (levels h) (minAutoBitrate (config h)) 0"

definition autoLevelCapping :: "hls \<Rightarrow> int" where
  "autoLevelCapping h = priv_autoLevelCapping h"

definition set_autoLevelCapping :: "int \<Rightarrow> hls \<Rightarrow> hls" where
  "set_autoLevelCapping newLevel h =
     (if priv_autoLevelCapping h \<noteq> newLevel
      then (logger_log (LogNum ''set autoLevelCapping:'' newLevel) h)
             \<lparr>priv_autoLevelCapping := newLevel\<rparr>
      else h)"

definition maxAutoLevel :: "hls \<Rightarrow> int" where
  "maxAutoLevel h =
     (if autoLevelCapping h = - 1 \<and> length (levels h) \<noteq> 0
      then int (length (levels h)) - 1
      else autoLevelCapping h)"

definition nextAutoLevel :: "hls \<Rightarrow> int" where
  "nextAutoLevel h =
     min (max (abr_nextAutoLevel (abrController h)) (minAutoLevel h)) (maxAutoLevel h)"

definition set_nextAutoLevel :: "int \<Rightarrow> hls \<Rightarrow> hls" where
  "set_nextAutoLevel nextLevel h =
     h\<lparr>abrController :=
         (abrController h)\<lparr>abr_nextAutoLevel := max (minAutoLevel h) nextLevel\<rparr>\<rparr>"

subsection \<open>Switching levels\<close>

definition set_loadLevel :: "int \<Rightarrow> hls \<Rightarrow> hls" where
  "set_loadLevel newLevel h =
     (let h1 = logger_log (LogNum ''set loadLevel:'' newLevel) h
      in h1\<lparr>levelController := (levelController h1)\<lparr>lc_manualLevel := newLevel\<rparr>\<rparr>)"

definition set_currentLevel :: "int \<Rightarrow> hls \<Rightarrow> hls" where
  "set_currentLevel newLevel h =
     (let h1 = logger_log (LogNum ''set currentLevel:'' newLevel) h;
          h2 = set_loadLevel newLevel h1
      in immediateLevelSwitch h2)"

definition set_nextLevel :: "int \<Rightarrow> hls \<Rightarrow> hls" where
  "set_nextLevel newLevel h =
     (let h1 = logger_log (LogNum ''set nextLevel:'' newLevel) h;
          h2 = h1\<lparr>levelController := (levelController h1)\<lparr>lc_manualLevel := newLevel\<rparr>\<rparr>
      in nextLevelSwitch h2)"

definition manualLevel :: "hls \<Rightarrow> int" where
  "manualLevel h = lc_manualLevel (levelController h)"

definition autoLevelEnabled :: "hls \<Rightarrow> bool" where
  "autoLevelEnabled h = (lc_manualLevel (levelController h) = - 1)"

definition firstLevel :: "hls \<Rightarrow> int" where
  "firstLevel h = max (lc_firstLevel (levelController h)) (minAutoLevel h)"

definition startLevel :: "hls \<Rightarrow> int" where
  "startLevel h = lc_startLevel (levelController h)"

definition set_startLevel :: "int \<Rightarrow> hls \<Rightarrow> hls" where
  "set_startLevel newLevel h =
     (let h1 = logger_log (LogNum ''set startLevel:'' newLevel) h;
          newLevel' = (if newLevel \<noteq> - 1 then max newLevel (minAutoLevel h1) else newLevel)
      in h1\<lparr>levelController := (levelController h1)\<lparr>lc_startLevel := newLevel'\<rparr>\<rparr>)"

subsection \<open>Capping to the player size\<close>

definition set_capLevelToPlayerSize :: "bool \<Rightarrow> hls \<Rightarrow> hls" where
  "set_capLevelToPlayerSize shouldStartCapping h =
     (let newCapLevelToPlayerSize = shouldStartCapping
      in if newCapLevelToPlayerSize \<noteq> capLevelToPlayerSize (config h)
         then (let h1 = (if newCapLevelToPlayerSize
                         then startCapping h
                         else nextLevelSwitch (set_autoLevelCapping (- 1) (stopCapping h)))
               in h1\<lparr>config := (config h1)\<lparr>capLevelToPlayerSize := newCapLevelToPlayerSize\<rparr>\<rparr>)
         else h)"


subsection \<open>Example states\<close>

text \<open>
  An instance with every optional controller configured, before a manifest is loaded:
  no levels, no capping, nothing attached, no listener.
\<close>

definition hls_initial :: hls where
  "hls_initial =
     \<lparr>config =
        \<lparr>capLevelToPlayerSize = False, minAutoBitrate = 0,
         audioTrackController = True, audioStreamController = True,
         subtitleTrackController = True, subtitleStreamController = True,
         timelineController = True, emeController = True\<rparr>,
      coreComponents =
        [PlaylistLoader, KeyLoader, AbrController, BufferController, CapLevelController,
         FpsController, FragmentTracker, TimelineController, EMEController],
      networkControllers =
        [LevelController, StreamController, AudioTrackController, AudioStreamController,
         SubtitleTrackController, SubtitleStreamController],
      priv_emitter = [],
      priv_autoLevelCapping = - 1,
      abrController = \<lparr>abr_nextAutoLevel = - 1\<rparr>,
      levelController =
        \<lparr>lc_levels = None, lc_manualLevel = - 1, lc_firstLevel = 0, lc_startLevel = - 1\<rparr>,
      priv_media = None,
      url = None,
      calls = [],
      logged = []\<rparr>"

text \<open>
  The same instance playing: three levels of 100000, 500000 and 1000000 bits per
  second, a floor of 200000, the estimator suggesting index 5, media 7 attached, and
  three listeners.
\<close>

definition hls_playing :: hls where
  "hls_playing =
     hls_initial
       \<lparr>config :=
          (config hls_initial)\<lparr>capLevelToPlayerSize := True, minAutoBitrate := 200000\<rparr>,
        priv_emitter :=
          [(MEDIA_DETACHING, Listener 1 False),
           (DESTROYING, Listener 2 True),
           (MEDIA_ATTACHING, Listener 3 False)],
        abrController := \<lparr>abr_nextAutoLevel = 5\<rparr>,
        levelController :=
          \<lparr>lc_levels =
             Some [\<lparr>maxBitrate = 100000\<rparr>, \<lparr>maxBitrate = 500000\<rparr>, \<lparr>maxBitrate = 1000000\<rparr>],
           lc_manualLevel = - 1, lc_firstLevel = 0, lc_startLevel = - 1\<rparr>,
        priv_media := Some 7,
        url := Some ''http://example.com/master.m3u8''\<rparr>"

text \<open>The playing instance capped to level 0, the estimator suggesting index 0.\<close>

definition hls_capped :: hls where
  "hls_capped =
     hls_playing\<lparr>priv_autoLevelCapping := 0, abrController := \<lparr>abr_nextAutoLevel = 0\<rparr>\<rparr>"

text \<open>The playing instance with a floor of 2000000, above every level.\<close>

definition hls_high_floor :: hls where
  "hls_high_floor = hls_playing\<lparr>config := (config hls_playing)\<lparr>minAutoBitrate := 2000000\<rparr>\<rparr>"

text \<open>The playing instance with no media attached.\<close>

definition hls_detached :: hls where
  "hls_detached = hls_playing\<lparr>priv_media := None\<rparr>"

subsection \<open>Reading the record of calls\<close>

text \<open>The calls made between an earlier state and a later one.\<close>

definition calls_since :: "hls \<Rightarrow> hls \<Rightarrow> call list" where
  "calls_since h h' = drop (length (calls h)) (calls h')"

text \<open>Whether a call publishes the event \<open>e\<close>.\<close>

definition publishes :: "events \<Rightarrow> call \<Rightarrow> bool" where
  "publishes e c = (case c of Publish e' p ls \<Rightarrow> e' = e | _ \<Rightarrow> False)"

subsection \<open>The clamp of the specification\<close>

text \<open>
  In the words of the specification: a value inside \<open>[lo, hi]\<close> is kept, a value
  below is bounded to \<open>lo\<close>, a value above to \<open>hi\<close>.
\<close>

definition spec_clamp :: "int \<Rightarrow> int \<Rightarrow> int \<Rightarrow> int" where
  "spec_clamp lo hi x = (if x < lo then lo else if hi < x then hi else x)"

section \<open>Properties\<close>

subsection \<open>The loop of minAutoLevel\<close>

text \<open>
  The loop started at \<open>i\<close> returns \<open>0\<close>, or an index from \<open>i\<close> on that is inside the
  list.
\<close>

lemma minAutoLevel_loop_bound:
  "minAutoLevel_loop ls b i = 0 \<or>
   (int i \<le> minAutoLevel_loop ls b i \<and> minAutoLevel_loop ls b i < int (length ls))"
proof (induction ls b i rule: minAutoLevel_loop.induct)
  case (1 ls b i)
  show ?case
  proof (cases "i < length ls \<and> \<not> maxBitrate (ls ! i) > b")
    case True
    with 1 show ?thesis by (subst (1 2 3) minAutoLevel_loop.simps) auto
  next
    case False
    then show ?thesis by (subst (1 2 3) minAutoLevel_loop.simps) auto
  qed
qed

text \<open>When no level from \<open>i\<close> on is above the floor, the loop falls through to \<open>0\<close>.\<close>

lemma minAutoLevel_loop_none:
  "(\<And>j. i \<le> j \<Longrightarrow> j < length ls \<Longrightarrow> \<not> b < maxBitrate (ls ! j)) \<Longrightarrow>
   minAutoLevel_loop ls b i = 0"
proof (induction ls b i rule: minAutoLevel_loop.induct)
  case (1 ls b i)
  show ?case
  proof (cases "i < length ls")
    case True
    then have "\<not> b < maxBitrate (ls ! i)" using 1(2)[of i] by simp
    moreover have "minAutoLevel_loop ls b (Suc i) = 0"
      using 1(1) True calculation 1(2) by simp
    ultimately show ?thesis using True by (subst minAutoLevel_loop.simps) simp
  next
    case False
    then show ?thesis by (subst minAutoLevel_loop.simps) simp
  qed
qed

text \<open>The loop started at or before the first level above the floor returns its index.\<close>

lemma minAutoLevel_loop_first:
  "i \<le> k \<Longrightarrow> k < length ls \<Longrightarrow> b < maxBitrate (ls ! k) \<Longrightarrow>
   (\<And>j. i \<le> j \<Longrightarrow> j < k \<Longrightarrow> \<not> b < maxBitrate (ls ! j)) \<Longrightarrow>
   minAutoLevel_loop ls b i = int k"
proof (induction ls b i rule: minAutoLevel_loop.induct)
  case (1 ls b i)
  show ?case
  proof (cases "i = k")
    case True
    then show ?thesis using 1(3,4) by (subst minAutoLevel_loop.simps) simp
  next
    case False
    then have lt: "i < k" using 1(2) by simp
    then have no: "\<not> b < maxBitrate (ls ! i)" using 1(5)[of i] by simp
    have il: "i < length ls" using lt 1(3) by simp
    have "minAutoLevel_loop ls b (Suc i) = int k"
      using 1(1)[OF il] no lt 1(3,4,5) by simp
    then show ?thesis using il no by (subst minAutoLevel_loop.simps) simp
  qed
qed

lemma minAutoLevel_range:
  "0 \<le> minAutoLevel h \<and>
   (levels h \<noteq> [] \<longrightarrow> minAutoLevel h \<le> int (length (levels h)) - 1)"
  using minAutoLevel_loop_bound [of "levels h" "minAutoBitrate (config h)" 0]
  by (auto simp: minAutoLevel_def)

subsection \<open>The bounds in the example states\<close>

lemma hls_initial_bounds:
  "minAutoLevel hls_initial = 0 \<and> maxAutoLevel hls_initial = - 1 \<and>
   nextAutoLevel hls_initial = - 1"
  by (simp add: nextAutoLevel_def maxAutoLevel_def minAutoLevel_def autoLevelCapping_def
      levels_def hls_initial_def minAutoLevel_loop.simps)

lemma hls_playing_levels:
  "levels hls_playing =
     [\<lparr>maxBitrate = 100000\<rparr>, \<lparr>maxBitrate = 500000\<rparr>, \<lparr>maxBitrate = 1000000\<rparr>]"
  by (simp add: levels_def hls_playing_def hls_initial_def)

lemma hls_playing_bounds:
  "minAutoLevel hls_playing = 1 \<and> maxAutoLevel hls_playing = 2 \<and>
   nextAutoLevel hls_playing = 2"
  by (simp add: nextAutoLevel_def maxAutoLevel_def minAutoLevel_def autoLevelCapping_def
      hls_playing_levels minAutoLevel_loop.simps) (simp add: hls_playing_def hls_initial_def)

lemma hls_capped_bounds:
  "minAutoLevel hls_capped = 1 \<and> maxAutoLevel hls_capped = 0 \<and>
   nextAutoLevel hls_capped = 0"
  by (simp add: nextAutoLevel_def maxAutoLevel_def minAutoLevel_def autoLevelCapping_def
      levels_def hls_capped_def hls_playing_def hls_initial_def minAutoLevel_loop.simps)

subsection \<open>The chain of the automatic level bounds\<close>

text \<open>
  Before a manifest is loaded there is no level and no capping: \<open>minAutoLevel\<close> is
  \<open>0\<close>, \<open>maxAutoLevel\<close> is the capping value \<open>-1\<close>, and \<open>nextAutoLevel\<close> is \<open>-1\<close>,
  below \<open>minAutoLevel\<close>. The chain of C1 does not hold in this state.
\<close>

theorem nextAutoLevel_chain_fails_initially:
  "\<not> (minAutoLevel hls_initial \<le> nextAutoLevel hls_initial \<and>
       nextAutoLevel hls_initial \<le> maxAutoLevel hls_initial)"
  by (simp add: hls_initial_bounds)

text \<open>
  C1, amended: for every level sequence, bitrate floor, capping value and estimator
  suggestion, \<open>nextAutoLevel \<le> maxAutoLevel\<close>; and the chain
  \<open>minAutoLevel \<le> nextAutoLevel \<le> maxAutoLevel\<close> holds whenever
  \<open>minAutoLevel \<le> maxAutoLevel\<close>, in particular whenever there is at least one level
  and the capping value is \<open>-1\<close>.
\<close>

theorem nextAutoLevel_chain:
  "nextAutoLevel h \<le> maxAutoLevel h \<and>
   (minAutoLevel h \<le> maxAutoLevel h \<longrightarrow>
      minAutoLevel h \<le> nextAutoLevel h \<and> nextAutoLevel h \<le> maxAutoLevel h) \<and>
   (levels h \<noteq> [] \<and> autoLevelCapping h = - 1 \<longrightarrow>
      minAutoLevel h \<le> nextAutoLevel h \<and> nextAutoLevel h \<le> maxAutoLevel h)"
proof -
  have upper: "nextAutoLevel h \<le> maxAutoLevel h"
    by (simp add: nextAutoLevel_def)
  have lower: "minAutoLevel h \<le> nextAutoLevel h" if "minAutoLevel h \<le> maxAutoLevel h"
    using that by (simp add: nextAutoLevel_def)
  have "minAutoLevel h \<le> maxAutoLevel h" if "levels h \<noteq> []" "autoLevelCapping h = - 1"
    using that minAutoLevel_range [of h] by (simp add: maxAutoLevel_def)
  with upper lower show ?thesis by blast
qed

theorem nextAutoLevel_chain_witness:
  "minAutoLevel hls_playing \<le> maxAutoLevel hls_playing \<and>
   levels hls_playing \<noteq> [] \<and> autoLevelCapping hls_playing = - 1 \<and>
   minAutoLevel hls_playing \<le> nextAutoLevel hls_playing \<and>
   nextAutoLevel hls_playing \<le> maxAutoLevel hls_playing"
proof -
  have "minAutoLevel hls_playing \<le> maxAutoLevel hls_playing"
    by (simp add: hls_playing_bounds)
  moreover have "levels hls_playing \<noteq> []"
    by (simp add: hls_playing_levels)
  moreover have "autoLevelCapping hls_playing = - 1"
    by (simp add: autoLevelCapping_def hls_playing_def hls_initial_def)
  ultimately show ?thesis
    using nextAutoLevel_chain [of hls_playing] by blast
qed

subsection \<open>Reading nextAutoLevel\<close>

text \<open>
  With three levels, a floor that excludes level 0 and a capping value of 0,
  \<open>minAutoLevel\<close> is 1 and \<open>maxAutoLevel\<close> is 0. The estimator suggests 0, below
  \<open>minAutoLevel\<close>; reading \<open>nextAutoLevel\<close> gives 0, not \<open>minAutoLevel\<close>, and not a
  value of the interval, as C2 states it.
\<close>

theorem nextAutoLevel_not_spec_clamp_when_capped:
  "abr_nextAutoLevel (abrController hls_capped) < minAutoLevel hls_capped \<and>
   nextAutoLevel hls_capped \<noteq> minAutoLevel hls_capped \<and>
   nextAutoLevel hls_capped \<noteq>
     spec_clamp (minAutoLevel hls_capped) (maxAutoLevel hls_capped)
       (abr_nextAutoLevel (abrController hls_capped)) \<and>
   \<not> (minAutoLevel hls_capped \<le> nextAutoLevel hls_capped)"
  by (simp add: hls_capped_bounds spec_clamp_def) (simp add: hls_capped_def)

text \<open>
  C2, amended: in every state with \<open>minAutoLevel \<le> maxAutoLevel\<close>, reading
  \<open>nextAutoLevel\<close> returns the estimator's suggestion clamped into
  \<open>[minAutoLevel, maxAutoLevel]\<close>: a suggestion below is bounded to \<open>minAutoLevel\<close>, one
  above to \<open>maxAutoLevel\<close>, never rejected. In a state with
  \<open>maxAutoLevel < minAutoLevel\<close> the read returns \<open>maxAutoLevel\<close>.
\<close>

theorem nextAutoLevel_clamps:
  "(minAutoLevel h \<le> maxAutoLevel h \<longrightarrow>
      nextAutoLevel h =
        spec_clamp (minAutoLevel h) (maxAutoLevel h) (abr_nextAutoLevel (abrController h))) \<and>
   (maxAutoLevel h < minAutoLevel h \<longrightarrow> nextAutoLevel h = maxAutoLevel h)"
  by (auto simp: nextAutoLevel_def spec_clamp_def)

theorem nextAutoLevel_clamps_witness:
  "minAutoLevel hls_playing \<le> maxAutoLevel hls_playing \<and>
   abr_nextAutoLevel (abrController hls_playing) = 5 \<and>
   nextAutoLevel hls_playing = spec_clamp 1 2 5 \<and>
   nextAutoLevel hls_playing = 2 \<and>
   maxAutoLevel hls_capped < minAutoLevel hls_capped \<and>
   nextAutoLevel hls_capped = maxAutoLevel hls_capped"
proof -
  have a: "minAutoLevel hls_playing \<le> maxAutoLevel hls_playing"
    by (simp add: hls_playing_bounds)
  have b: "maxAutoLevel hls_capped < minAutoLevel hls_capped"
    by (simp add: hls_capped_bounds)
  have s: "abr_nextAutoLevel (abrController hls_playing) = 5"
    by (simp add: hls_playing_def)
  from a b s show ?thesis
    using nextAutoLevel_clamps [of hls_playing] nextAutoLevel_clamps [of hls_capped]
    by (simp add: hls_playing_bounds)
qed

subsection \<open>minAutoLevel\<close>

text \<open>
  C3: for every level sequence and bitrate floor, \<open>minAutoLevel\<close> is the smallest index
  whose level's maximum bitrate is strictly above the floor (index \<open>k\<close> is above the
  floor and no index before it is), and it is \<open>0\<close> when no level is above the floor or
  the sequence is empty.
\<close>

theorem minAutoLevel_first_above_floor:
  "(k < length (levels h) \<and> minAutoBitrate (config h) < maxBitrate (levels h ! k) \<and>
    (\<forall>j<k. \<not> minAutoBitrate (config h) < maxBitrate (levels h ! j))
      \<longrightarrow> minAutoLevel h = int k) \<and>
   ((\<forall>i<length (levels h). \<not> minAutoBitrate (config h) < maxBitrate (levels h ! i))
      \<longrightarrow> minAutoLevel h = 0) \<and>
   (levels h = [] \<longrightarrow> minAutoLevel h = 0)"
proof (intro conjI impI)
  assume "k < length (levels h) \<and> minAutoBitrate (config h) < maxBitrate (levels h ! k) \<and>
    (\<forall>j<k. \<not> minAutoBitrate (config h) < maxBitrate (levels h ! j))"
  then show "minAutoLevel h = int k"
    unfolding minAutoLevel_def by (intro minAutoLevel_loop_first) auto
next
  assume "\<forall>i<length (levels h). \<not> minAutoBitrate (config h) < maxBitrate (levels h ! i)"
  then show "minAutoLevel h = 0"
    unfolding minAutoLevel_def by (intro minAutoLevel_loop_none) auto
next
  assume "levels h = []"
  then show "minAutoLevel h = 0"
    by (simp add: minAutoLevel_def minAutoLevel_loop.simps)
qed

theorem minAutoLevel_first_above_floor_witness:
  "(1::nat) < length (levels hls_playing) \<and>
   minAutoBitrate (config hls_playing) < maxBitrate (levels hls_playing ! 1) \<and>
   \<not> minAutoBitrate (config hls_playing) < maxBitrate (levels hls_playing ! 0) \<and>
   minAutoLevel hls_playing = 1 \<and>
   length (levels hls_high_floor) = 3 \<and>
   list_all (\<lambda>l. \<not> minAutoBitrate (config hls_high_floor) < maxBitrate l)
     (levels hls_high_floor) \<and>
   minAutoLevel hls_high_floor = 0 \<and>
   levels hls_initial = [] \<and> minAutoLevel hls_initial = 0"
proof -
  have lv: "levels hls_high_floor = levels hls_playing"
    by (simp add: levels_def hls_high_floor_def)
  have fl: "minAutoBitrate (config hls_playing) = 200000"
    by (simp add: hls_playing_def)
  have fh: "minAutoBitrate (config hls_high_floor) = 2000000"
    by (simp add: hls_high_floor_def)
  have a: "(1::nat) < length (levels hls_playing) \<and>
     minAutoBitrate (config hls_playing) < maxBitrate (levels hls_playing ! 1) \<and>
     (\<forall>j<(1::nat). \<not> minAutoBitrate (config hls_playing) < maxBitrate (levels hls_playing ! j))"
    by (simp add: hls_playing_levels fl)
  have b: "\<forall>i<length (levels hls_high_floor).
     \<not> minAutoBitrate (config hls_high_floor) < maxBitrate (levels hls_high_floor ! i)"
    by (simp add: lv fh hls_playing_levels less_Suc_eq numeral_3_eq_3)
  have c: "levels hls_initial = []"
    by (simp add: levels_def hls_initial_def)
  have r1: "minAutoLevel hls_playing = int 1"
    by (rule mp [OF minAutoLevel_first_above_floor [of 1 hls_playing, THEN conjunct1] a])
  have r2: "minAutoLevel hls_high_floor = 0"
    by (rule mp [OF minAutoLevel_first_above_floor
          [of 0 hls_high_floor, THEN conjunct2, THEN conjunct1] b])
  have r3: "minAutoLevel hls_initial = 0"
    by (rule mp [OF minAutoLevel_first_above_floor
          [of 0 hls_initial, THEN conjunct2, THEN conjunct2] c])
  show ?thesis
    using r1 r2 r3 c by (simp add: lv fh hls_playing_levels fl)
qed

subsection \<open>Setting startLevel\<close>

text \<open>
  C9: for every level index \<open>L\<close> other than \<open>-1\<close>, setting \<open>startLevel := L\<close> stores
  \<open>max(L, minAutoLevel)\<close> in the level controller; setting \<open>startLevel := -1\<close> stores
  \<open>-1\<close> unclamped. Besides the line it logs, the setter changes nothing else.
\<close>

theorem set_startLevel_stores:
  "(L \<noteq> - 1 \<longrightarrow> startLevel (set_startLevel L h) = max L (minAutoLevel h)) \<and>
   startLevel (set_startLevel (- 1) h) = - 1 \<and>
   set_startLevel L h =
     h\<lparr>levelController :=
         (levelController h)\<lparr>lc_startLevel := (if L = - 1 then - 1 else max L (minAutoLevel h))\<rparr>,
       logged := logged h @ [LogNum ''set startLevel:'' L]\<rparr>"
  by (simp add: set_startLevel_def startLevel_def logger_log_def minAutoLevel_def levels_def Let_def)

theorem set_startLevel_stores_witness:
  "(0::int) \<noteq> - 1 \<and> startLevel (set_startLevel 0 hls_playing) = 1 \<and>
   (2::int) \<noteq> - 1 \<and> startLevel (set_startLevel 2 hls_playing) = 2 \<and>
   startLevel (set_startLevel (- 1) hls_playing) = - 1"
  using set_startLevel_stores [of 0 hls_playing, THEN conjunct1]
    set_startLevel_stores [of 2 hls_playing, THEN conjunct1]
    set_startLevel_stores [of 0 hls_playing, THEN conjunct2, THEN conjunct1]
  by (simp add: hls_playing_bounds)

subsection \<open>Setting nextAutoLevel\<close>

text \<open>
  C10: for every forced value \<open>v\<close>, the \<open>nextAutoLevel\<close> setter stores
  \<open>max(minAutoLevel, v)\<close> in the bandwidth estimator: a value below \<open>minAutoLevel\<close> is
  raised to it, a value from \<open>minAutoLevel\<close> on is stored as it is, and a value above
  \<open>maxAutoLevel\<close> is stored above \<open>maxAutoLevel\<close>, with no upper clamp. The setter
  leaves both bounds as they were, and only the getter bounds the stored value by
  \<open>maxAutoLevel\<close> when it is read.
\<close>

theorem set_nextAutoLevel_stores:
  "abr_nextAutoLevel (abrController (set_nextAutoLevel v h)) = max (minAutoLevel h) v \<and>
   (v < minAutoLevel h \<longrightarrow>
      abr_nextAutoLevel (abrController (set_nextAutoLevel v h)) = minAutoLevel h) \<and>
   (minAutoLevel h \<le> v \<longrightarrow>
      abr_nextAutoLevel (abrController (set_nextAutoLevel v h)) = v) \<and>
   (maxAutoLevel h < v \<longrightarrow>
      maxAutoLevel h < abr_nextAutoLevel (abrController (set_nextAutoLevel v h))) \<and>
   minAutoLevel (set_nextAutoLevel v h) = minAutoLevel h \<and>
   maxAutoLevel (set_nextAutoLevel v h) = maxAutoLevel h \<and>
   nextAutoLevel (set_nextAutoLevel v h) = min (max (minAutoLevel h) v) (maxAutoLevel h) \<and>
   nextAutoLevel (set_nextAutoLevel v h) \<le> maxAutoLevel h"
  by (auto simp: set_nextAutoLevel_def nextAutoLevel_def minAutoLevel_def maxAutoLevel_def
      autoLevelCapping_def levels_def)

theorem set_nextAutoLevel_stores_witness:
  "0 < minAutoLevel hls_playing \<and>
   abr_nextAutoLevel (abrController (set_nextAutoLevel 0 hls_playing)) = 1 \<and>
   minAutoLevel hls_playing \<le> 7 \<and> maxAutoLevel hls_playing < 7 \<and>
   abr_nextAutoLevel (abrController (set_nextAutoLevel 7 hls_playing)) = 7 \<and>
   nextAutoLevel (set_nextAutoLevel 7 hls_playing) = 2"
  using set_nextAutoLevel_stores [of 0 hls_playing] set_nextAutoLevel_stores [of 7 hls_playing]
  by (simp add: hls_playing_bounds)

subsection \<open>The emitter and the component lists\<close>

text \<open>
  Publishing an event removes only the \<open>once\<close> listeners of that event: the receivers
  of any other event stay as they were.
\<close>

lemma receivers_after_emit:
  "e' \<noteq> e \<Longrightarrow>
   receivers e' (filter (\<lambda>r. if fst r = e then \<not> listener_once (snd r) else True) reg) =
   receivers e' reg"
  by (induction reg) (auto simp: receivers_def)

lemma fold_component_destroy:
  "fold component_destroy cs h = h\<lparr>calls := calls h @ map ComponentDestroy cs\<rparr>"
  by (induction cs arbitrary: h) (simp_all add: component_destroy_def)

lemma count_list_ComponentDestroy:
  "count_list (map ComponentDestroy cs) (ComponentDestroy c) = count_list cs c"
  by (induction cs) simp_all

lemma count_list_distinct:
  "distinct cs \<Longrightarrow> count_list cs c = (if c \<in> set cs then 1 else 0)"
  by (induction cs) auto

lemma attachMedia_eq:
  "attachMedia m h =
     h\<lparr>priv_emitter :=
         filter (\<lambda>r. if fst r = MEDIA_ATTACHING then \<not> listener_once (snd r) else True)
           (priv_emitter h),
       priv_media := Some m,
       calls := calls h @
         [Publish MEDIA_ATTACHING (MediaPayload m) (receivers MEDIA_ATTACHING (priv_emitter h))],
       logged := logged h @ [Log ''attachMedia'']\<rparr>"
  by (simp add: attachMedia_def emit_def logger_log_def Let_def)

lemma detachMedia_eq:
  "detachMedia h =
     h\<lparr>priv_emitter :=
         filter (\<lambda>r. if fst r = MEDIA_DETACHING then \<not> listener_once (snd r) else True)
           (priv_emitter h),
       priv_media := None,
       calls := calls h @
         [Publish MEDIA_DETACHING NoPayload (receivers MEDIA_DETACHING (priv_emitter h))],
       logged := logged h @ [Log ''detachMedia'']\<rparr>"
  by (simp add: detachMedia_def emit_def logger_log_def Let_def)

lemma destroy_eq:
  "destroy h =
     h\<lparr>priv_emitter := [],
       priv_autoLevelCapping := - 1,
       priv_media := None,
       url := None,
       calls := calls h @
         [Publish DESTROYING NoPayload (receivers DESTROYING (priv_emitter h)),
          Publish MEDIA_DETACHING NoPayload (receivers MEDIA_DETACHING (priv_emitter h))] @
         map ComponentDestroy (coreComponents h @ networkControllers h),
       logged := logged h @ [Log ''destroy'', Log ''detachMedia'']\<rparr>"
  by (simp add: destroy_def detachMedia_eq emit_def logger_log_def removeAllListeners_def
      fold_component_destroy receivers_after_emit Let_def)

text \<open>
  The constructor never puts a component on its lists twice, whatever optional
  controllers are configured.
\<close>

lemma constructor_components_distinct:
  "distinct (fst (constructor_components cfg) @ snd (constructor_components cfg))"
  by (simp add: constructor_components_def createController_def Let_def)

lemma hls_initial_constructed:
  "(coreComponents hls_initial, networkControllers hls_initial) =
   constructor_components (config hls_initial)"
  by (simp add: constructor_components_def createController_def hls_initial_def)

subsection \<open>destroy\<close>

text \<open>
  C4: \<open>destroy()\<close> first publishes the destroying event, then detaches the media (the
  detaching event is published, to the listeners still registered, and \<open>media\<close> is
  null afterwards), then calls \<open>destroy()\<close> on the members of \<open>coreComponents\<close> and
  \<open>networkControllers\<close>, in list order, once per list entry, and so exactly once on
  every member when no component is listed twice. Afterwards the source locator is
  cleared, no listener is registered, so an event published later is delivered to
  nobody, and \<open>autoLevelCapping\<close> is \<open>-1\<close>.
\<close>

theorem destroy_sequence:
  "calls (destroy h) =
     calls h @
     [Publish DESTROYING NoPayload (receivers DESTROYING (priv_emitter h)),
      Publish MEDIA_DETACHING NoPayload (receivers MEDIA_DETACHING (priv_emitter h))] @
     map ComponentDestroy (coreComponents h @ networkControllers h) \<and>
   (\<forall>c. count_list (calls_since h (destroy h)) (ComponentDestroy c) =
        count_list (coreComponents h @ networkControllers h) c) \<and>
   (distinct (coreComponents h @ networkControllers h) \<longrightarrow>
      (\<forall>c. count_list (calls_since h (destroy h)) (ComponentDestroy c) =
         (if c \<in> set (coreComponents h) \<union> set (networkControllers h) then 1 else 0))) \<and>
   media (destroy h) = None \<and>
   url (destroy h) = None \<and>
   priv_emitter (destroy h) = [] \<and>
   (\<forall>e. listenerCount e (destroy h) = 0) \<and>
   (\<forall>e p. emit e p (destroy h) =
      (False, (destroy h)\<lparr>calls := calls (destroy h) @ [Publish e p []]\<rparr>)) \<and>
   autoLevelCapping (destroy h) = - 1"
proof -
  let ?cs = "coreComponents h @ networkControllers h"
  have c: "calls (destroy h) =
     calls h @
     [Publish DESTROYING NoPayload (receivers DESTROYING (priv_emitter h)),
      Publish MEDIA_DETACHING NoPayload (receivers MEDIA_DETACHING (priv_emitter h))] @
     map ComponentDestroy ?cs"
    by (simp add: destroy_eq)
  have since: "calls_since h (destroy h) =
     [Publish DESTROYING NoPayload (receivers DESTROYING (priv_emitter h)),
      Publish MEDIA_DETACHING NoPayload (receivers MEDIA_DETACHING (priv_emitter h))] @
     map ComponentDestroy ?cs"
    by (simp add: calls_since_def c)
  have n: "count_list (calls_since h (destroy h)) (ComponentDestroy c) = count_list ?cs c" for c
    unfolding since by (simp add: count_list_ComponentDestroy del: map_append)
  have d: "count_list (calls_since h (destroy h)) (ComponentDestroy c) =
      (if c \<in> set (coreComponents h) \<union> set (networkControllers h) then 1 else 0)"
    if "distinct ?cs" for c
    using count_list_distinct [OF that, of c] n [of c] by simp
  have e: "priv_emitter (destroy h) = []"
    by (simp add: destroy_eq)
  have m: "media (destroy h) = None" "url (destroy h) = None" "autoLevelCapping (destroy h) = - 1"
    by (simp_all add: destroy_eq media_def autoLevelCapping_def)
  have l: "listenerCount ev (destroy h) = 0" for ev
    by (simp add: listenerCount_def e receivers_def)
  have p: "emit ev p (destroy h) =
      (False, (destroy h)\<lparr>calls := calls (destroy h) @ [Publish ev p []]\<rparr>)" for ev p
    by (simp add: emit_def e receivers_def Let_def)
  show ?thesis
    using c n d e m l p by (intro conjI allI impI)
qed

lemma hls_playing_components:
  "coreComponents hls_playing =
     [PlaylistLoader, KeyLoader, AbrController, BufferController, CapLevelController,
      FpsController, FragmentTracker, TimelineController, EMEController] \<and>
   networkControllers hls_playing =
     [LevelController, StreamController, AudioTrackController, AudioStreamController,
      SubtitleTrackController, SubtitleStreamController]"
  by (simp add: hls_playing_def hls_initial_def)

theorem destroy_sequence_witness:
  "distinct (coreComponents hls_playing @ networkControllers hls_playing) \<and>
   count_list (calls_since hls_playing (destroy hls_playing)) (ComponentDestroy PlaylistLoader) = 1 \<and>
   count_list (calls_since hls_playing (destroy hls_playing)) (ComponentDestroy StreamController) = 1 \<and>
   calls (destroy hls_playing) =
     [Publish DESTROYING NoPayload [Listener 2 True],
      Publish MEDIA_DETACHING NoPayload [Listener 1 False],
      ComponentDestroy PlaylistLoader, ComponentDestroy KeyLoader,
      ComponentDestroy AbrController, ComponentDestroy BufferController,
      ComponentDestroy CapLevelController, ComponentDestroy FpsController,
      ComponentDestroy FragmentTracker, ComponentDestroy TimelineController,
      ComponentDestroy EMEController, ComponentDestroy LevelController,
      ComponentDestroy StreamController, ComponentDestroy AudioTrackController,
      ComponentDestroy AudioStreamController, ComponentDestroy SubtitleTrackController,
      ComponentDestroy SubtitleStreamController]"
proof -
  have d: "distinct (coreComponents hls_playing @ networkControllers hls_playing)"
    by (simp add: hls_playing_components)
  have r: "receivers DESTROYING (priv_emitter hls_playing) = [Listener 2 True] \<and>
     receivers MEDIA_DETACHING (priv_emitter hls_playing) = [Listener 1 False] \<and>
     calls hls_playing = []"
    by (simp add: receivers_def hls_playing_def hls_initial_def)
  note t = destroy_sequence [of hls_playing]
  have c1: "count_list (calls_since hls_playing (destroy hls_playing))
      (ComponentDestroy PlaylistLoader) = 1"
    using mp [OF t [THEN conjunct2, THEN conjunct2, THEN conjunct1] d, THEN spec, of PlaylistLoader]
    by (simp add: hls_playing_components)
  have c2: "count_list (calls_since hls_playing (destroy hls_playing))
      (ComponentDestroy StreamController) = 1"
    using mp [OF t [THEN conjunct2, THEN conjunct2, THEN conjunct1] d, THEN spec, of StreamController]
    by (simp add: hls_playing_components)
  have c3: "calls (destroy hls_playing) =
     [Publish DESTROYING NoPayload [Listener 2 True],
      Publish MEDIA_DETACHING NoPayload [Listener 1 False]] @
     map ComponentDestroy (coreComponents hls_playing @ networkControllers hls_playing)"
    using t [THEN conjunct1] by (simp add: r)
  show ?thesis
    using d c1 c2 c3 by (simp add: hls_playing_components)
qed

subsection \<open>attachMedia followed by detachMedia\<close>

text \<open>
  C7: for every media reference \<open>m\<close>, \<open>attachMedia(m)\<close> followed by \<open>detachMedia()\<close>
  leaves \<open>media\<close> null and publishes exactly two events: one media-attaching event
  with the payload \<open>{media: m}\<close>, then one media-detaching event.
\<close>

theorem attachMedia_then_detachMedia:
  "media (detachMedia (attachMedia m h)) = None \<and>
   calls_since h (detachMedia (attachMedia m h)) =
     [Publish MEDIA_ATTACHING (MediaPayload m) (receivers MEDIA_ATTACHING (priv_emitter h)),
      Publish MEDIA_DETACHING NoPayload (receivers MEDIA_DETACHING (priv_emitter h))] \<and>
   calls (detachMedia (attachMedia m h)) = calls h @ calls_since h (detachMedia (attachMedia m h)) \<and>
   filter (publishes MEDIA_ATTACHING) (calls_since h (detachMedia (attachMedia m h))) =
     [Publish MEDIA_ATTACHING (MediaPayload m) (receivers MEDIA_ATTACHING (priv_emitter h))] \<and>
   filter (publishes MEDIA_DETACHING) (calls_since h (detachMedia (attachMedia m h))) =
     [Publish MEDIA_DETACHING NoPayload (receivers MEDIA_DETACHING (priv_emitter h))] \<and>
   media (attachMedia m h) = Some m"
  by (simp add: attachMedia_eq detachMedia_eq media_def calls_since_def publishes_def
      receivers_after_emit)

theorem attachMedia_then_detachMedia_witness:
  "media (detachMedia (attachMedia 9 hls_detached)) = None \<and>
   calls_since hls_detached (detachMedia (attachMedia 9 hls_detached)) =
     [Publish MEDIA_ATTACHING (MediaPayload 9) [Listener 3 False],
      Publish MEDIA_DETACHING NoPayload [Listener 1 False]]"
proof -
  have r: "receivers MEDIA_DETACHING (priv_emitter hls_detached) = [Listener 1 False] \<and>
     receivers MEDIA_ATTACHING (priv_emitter hls_detached) = [Listener 3 False]"
    by (simp add: receivers_def hls_detached_def hls_playing_def hls_initial_def)
  note t = attachMedia_then_detachMedia [of 9 hls_detached]
  show ?thesis
    using t [THEN conjunct1] t [THEN conjunct2, THEN conjunct1] by (simp add: r)
qed

subsection \<open>recoverMediaError\<close>

text \<open>
  With no media attached, \<open>recoverMediaError()\<close> still calls \<open>detachMedia()\<close>: the
  media-detaching event is published and a registered listener receives it. The call
  is not a no-op, as C8 states it.
\<close>

theorem recoverMediaError_not_noop_without_media:
  "media hls_detached = None \<and>
   recoverMediaError hls_detached \<noteq> hls_detached \<and>
   calls_since hls_detached (recoverMediaError hls_detached) =
     [Publish MEDIA_DETACHING NoPayload [Listener 1 False]]"
proof -
  have m: "media hls_detached = None"
    by (simp add: media_def hls_detached_def)
  have c: "calls (recoverMediaError hls_detached) =
      [Publish MEDIA_DETACHING NoPayload [Listener 1 False]]"
    by (simp add: recoverMediaError_def detachMedia_eq logger_log_def receivers_def
        hls_detached_def hls_playing_def hls_initial_def)
  have e: "calls hls_detached = []"
    by (simp add: hls_detached_def hls_playing_def hls_initial_def)
  have "recoverMediaError hls_detached \<noteq> hls_detached"
  proof
    assume "recoverMediaError hls_detached = hls_detached"
    then have "calls (recoverMediaError hls_detached) = calls hls_detached" by simp
    with c e show False by simp
  qed
  with m c e show ?thesis by (simp add: calls_since_def)
qed

text \<open>
  C8, amended: \<open>recoverMediaError()\<close> captures the attached media reference, calls
  \<open>detachMedia()\<close>, and then calls \<open>attachMedia()\<close> with that same reference if and
  only if a reference existed. It has no failing branch. When no media was attached it
  makes no \<open>attachMedia()\<close> call and leaves \<open>media\<close> null; what it does is what
  \<open>detachMedia()\<close> does: one media-detaching event is published (and two lines are
  logged).
\<close>

theorem recoverMediaError_cycle:
  "(media h = Some r \<longrightarrow>
      recoverMediaError h = attachMedia r (detachMedia (logger_log (Log ''recoverMediaError'') h)) \<and>
      media (recoverMediaError h) = Some r \<and>
      calls_since h (recoverMediaError h) =
        [Publish MEDIA_DETACHING NoPayload (receivers MEDIA_DETACHING (priv_emitter h)),
         Publish MEDIA_ATTACHING (MediaPayload r) (receivers MEDIA_ATTACHING (priv_emitter h))]) \<and>
   (media h = None \<longrightarrow>
      recoverMediaError h = detachMedia (logger_log (Log ''recoverMediaError'') h) \<and>
      media (recoverMediaError h) = None \<and>
      calls_since h (recoverMediaError h) =
        [Publish MEDIA_DETACHING NoPayload (receivers MEDIA_DETACHING (priv_emitter h))] \<and>
      recoverMediaError h =
        h\<lparr>priv_emitter :=
            filter (\<lambda>r. if fst r = MEDIA_DETACHING then \<not> listener_once (snd r) else True)
              (priv_emitter h),
          calls := calls h @
            [Publish MEDIA_DETACHING NoPayload (receivers MEDIA_DETACHING (priv_emitter h))],
          logged := logged h @ [Log ''recoverMediaError'', Log ''detachMedia'']\<rparr>) \<and>
   (filter (publishes MEDIA_ATTACHING) (calls_since h (recoverMediaError h)) \<noteq> []) =
     (media h \<noteq> None) \<and>
   calls (recoverMediaError h) = calls h @ calls_since h (recoverMediaError h)"
proof (cases "priv_media h")
  case None
  then show ?thesis
    by (simp add: recoverMediaError_def detachMedia_eq media_def calls_since_def publishes_def
        logger_log_def)
next
  case (Some a)
  then show ?thesis
    by (simp add: recoverMediaError_def attachMedia_eq detachMedia_eq media_def calls_since_def
        publishes_def logger_log_def receivers_after_emit)
qed

theorem recoverMediaError_cycle_witness:
  "media hls_playing = Some 7 \<and>
   media (recoverMediaError hls_playing) = Some 7 \<and>
   calls_since hls_playing (recoverMediaError hls_playing) =
     [Publish MEDIA_DETACHING NoPayload [Listener 1 False],
      Publish MEDIA_ATTACHING (MediaPayload 7) [Listener 3 False]] \<and>
   media hls_detached = None \<and>
   media (recoverMediaError hls_detached) = None"
proof -
  have a: "media hls_playing = Some 7"
    by (simp add: media_def hls_playing_def)
  have b: "media hls_detached = None"
    by (simp add: media_def hls_detached_def)
  have r: "receivers MEDIA_DETACHING (priv_emitter hls_playing) = [Listener 1 False] \<and>
     receivers MEDIA_ATTACHING (priv_emitter hls_playing) = [Listener 3 False]"
    by (simp add: receivers_def hls_playing_def hls_initial_def)
  note p = mp [OF recoverMediaError_cycle [of hls_playing 7, THEN conjunct1] a]
  note d = mp [OF recoverMediaError_cycle [of hls_detached 7, THEN conjunct2, THEN conjunct1] b]
  show ?thesis
    using a b p [THEN conjunct2] d [THEN conjunct2, THEN conjunct1] by (simp add: r)
qed

subsection \<open>Setting currentLevel and loadLevel\<close>

text \<open>
  C5: for every level index \<open>L\<close>, setting \<open>currentLevel := L\<close> and setting
  \<open>loadLevel := L\<close> both set the manual level of the level controller to \<open>L\<close>.
  Setting \<open>currentLevel\<close> makes exactly one call, \<open>immediateLevelSwitch()\<close> on the
  stream controller; setting \<open>loadLevel\<close> makes no call and changes nothing else.
  The state after setting \<open>currentLevel\<close> is the state after setting \<open>loadLevel\<close>
  with that one call added (each setter also writes its own line to the logger).
\<close>

theorem set_currentLevel_and_set_loadLevel:
  "manualLevel (set_currentLevel L h) = L \<and>
   manualLevel (set_loadLevel L h) = L \<and>
   calls (set_currentLevel L h) = calls h @ [ImmediateLevelSwitch] \<and>
   calls (set_loadLevel L h) = calls h \<and>
   set_loadLevel L h =
     h\<lparr>levelController := (levelController h)\<lparr>lc_manualLevel := L\<rparr>,
       logged := logged h @ [LogNum ''set loadLevel:'' L]\<rparr> \<and>
   set_currentLevel L h =
     (set_loadLevel L h)
       \<lparr>calls := calls h @ [ImmediateLevelSwitch],
        logged := logged h @ [LogNum ''set currentLevel:'' L, LogNum ''set loadLevel:'' L]\<rparr>"
  by (simp add: set_currentLevel_def set_loadLevel_def manualLevel_def immediateLevelSwitch_def
      logger_log_def Let_def)

theorem set_currentLevel_and_set_loadLevel_witness:
  "manualLevel hls_playing = - 1 \<and>
   manualLevel (set_currentLevel 2 hls_playing) = 2 \<and>
   manualLevel (set_loadLevel 2 hls_playing) = 2 \<and>
   calls (set_currentLevel 2 hls_playing) = [ImmediateLevelSwitch] \<and>
   calls (set_loadLevel 2 hls_playing) = []"
proof -
  have a: "manualLevel hls_playing = - 1 \<and> calls hls_playing = []"
    by (simp add: manualLevel_def hls_playing_def hls_initial_def)
  note t = set_currentLevel_and_set_loadLevel [of 2 hls_playing]
  show ?thesis
    using a t [THEN conjunct1] t [THEN conjunct2, THEN conjunct1]
      t [THEN conjunct2, THEN conjunct2, THEN conjunct1]
      t [THEN conjunct2, THEN conjunct2, THEN conjunct2, THEN conjunct1]
    by simp
qed

subsection \<open>Setting capLevelToPlayerSize\<close>

text \<open>
  C6: setting \<open>capLevelToPlayerSize\<close> from true to false resets \<open>autoLevelCapping\<close> to
  \<open>-1\<close> and makes exactly one \<open>nextLevelSwitch()\<close> call on the stream controller
  (after \<open>stopCapping()\<close> on the cap-level controller). Setting it to the value
  currently configured changes nothing and makes no call; so setting the same value
  twice is the same as setting it once.
\<close>

theorem set_capLevelToPlayerSize_toggle:
  "(capLevelToPlayerSize (config h) \<longrightarrow>
      autoLevelCapping (set_capLevelToPlayerSize False h) = - 1 \<and>
      calls (set_capLevelToPlayerSize False h) = calls h @ [StopCapping, NextLevelSwitch] \<and>
      count_list (calls_since h (set_capLevelToPlayerSize False h)) NextLevelSwitch = 1 \<and>
      capLevelToPlayerSize (config (set_capLevelToPlayerSize False h)) = False) \<and>
   (b = capLevelToPlayerSize (config h) \<longrightarrow> set_capLevelToPlayerSize b h = h) \<and>
   set_capLevelToPlayerSize b (set_capLevelToPlayerSize b h) = set_capLevelToPlayerSize b h"
  by (auto simp: set_capLevelToPlayerSize_def set_autoLevelCapping_def autoLevelCapping_def
      stopCapping_def startCapping_def nextLevelSwitch_def logger_log_def calls_since_def Let_def)

theorem set_capLevelToPlayerSize_toggle_witness:
  "capLevelToPlayerSize (config hls_capped) \<and>
   autoLevelCapping hls_capped = 0 \<and>
   autoLevelCapping (set_capLevelToPlayerSize False hls_capped) = - 1 \<and>
   calls (set_capLevelToPlayerSize False hls_capped) = [StopCapping, NextLevelSwitch] \<and>
   set_capLevelToPlayerSize True hls_capped = hls_capped"
proof -
  have a: "capLevelToPlayerSize (config hls_capped)"
    by (simp add: hls_capped_def hls_playing_def)
  have b: "True = capLevelToPlayerSize (config hls_capped)"
    using a by simp
  have c: "calls hls_capped = [] \<and> autoLevelCapping hls_capped = 0"
    by (simp add: autoLevelCapping_def hls_capped_def hls_playing_def hls_initial_def)
  note f = mp [OF set_capLevelToPlayerSize_toggle
      [where h = hls_capped and b = True, THEN conjunct1] a]
  note s = mp [OF set_capLevelToPlayerSize_toggle
      [where h = hls_capped and b = True, THEN conjunct2, THEN conjunct1] b]
  show ?thesis
    using a c f [THEN conjunct1] f [THEN conjunct2, THEN conjunct1] s by simp
qed

end
